theory Spec2Isabelle
  imports Main
begin

section \<open>The source-control collaborator\<close>

text \<open>
  A commit as \<^verbatim>\<open>ci-deploy.py\<close> reads it through GitPython: its \<^verbatim>\<open>hexsha\<close>, its
  \<^verbatim>\<open>tree\<close> (looked up by path, \<^verbatim>\<open>tree[path].hexsha\<close>, raising \<^verbatim>\<open>KeyError\<close> for a path
  that is not there) and its \<^verbatim>\<open>parents\<close>.  The datatype is well-founded, as commit
  ancestry is; a commit that is reachable through two merge parents occurs once under
  each of them.
\<close>

type_synonym tree = "string \<rightharpoonup> string"

datatype commit = Commit (hexsha: string) (tree: tree) (parents: "commit list")

definition ASSET_FILES :: "string list" where
  "ASSET_FILES =
     [''.github/workflows/assets.yml'', ''public'', ''ui'', ''package.json'', ''yarn.lock'']"

text \<open>
  \<^verbatim>\<open>hash_files(tree, files)\<close>: the tuple of blob ids, in the order of \<^verbatim>\<open>files\<close>.
  The \<^verbatim>\<open>KeyError\<close> of the first missing path is the value \<open>None\<close>.
\<close>

fun hash_files :: "tree \<Rightarrow> string list \<Rightarrow> string list option" where
  "hash_files t [] = Some []"
| "hash_files t (path # files) =
     (case t path of
        None \<Rightarrow> None
      | Some h \<Rightarrow> (case hash_files t files of None \<Rightarrow> None | Some hs \<Rightarrow> Some (h # hs)))"

text \<open>
  \<^verbatim>\<open>find_commits(commit, files, wanted_hash)\<close> is a generator.  The walk below records
  what a run of it does, in order: \<open>Visit\<close> when the body is entered for a commit and
  its tree is hashed, \<open>Yield\<close> when a commit id is yielded.  A mismatch and a
  \<^verbatim>\<open>KeyError\<close> both return at once.
\<close>

datatype walk_event = Visit string | Yield string

fun find_commits_walk :: "commit \<Rightarrow> string list \<Rightarrow> string list \<Rightarrow> walk_event list" where
  "find_commits_walk (Commit sha t ps) files wanted_hash =
     Visit sha #
     (case hash_files t files of
        None \<Rightarrow> []
      | Some h \<Rightarrow>
          if h \<noteq> wanted_hash then []
          else Yield sha # concat (map (\<lambda>parent. find_commits_walk parent files wanted_hash) ps))"

fun yielded :: "walk_event list \<Rightarrow> string list" where
  "yielded [] = []"
| "yielded (Visit s # es) = yielded es"
| "yielded (Yield s # es) = s # yielded es"


definition find_commits :: "commit \<Rightarrow> string list \<Rightarrow> string list \<Rightarrow> string list" where
  "find_commits commit files wanted_hash = yielded (find_commits_walk commit files wanted_hash)"




section \<open>The CI-provider collaborator\<close>

text \<open>
  A workflow run and an artifact, with the fields the script reads from the JSON the
  provider returns: \<^verbatim>\<open>run["id"]\<close>, \<^verbatim>\<open>run["status"]\<close>, \<^verbatim>\<open>run["conclusion"]\<close> (JSON
  \<^verbatim>\<open>null\<close> is \<open>None\<close>), \<^verbatim>\<open>run["head_commit"]["id"]\<close>, \<^verbatim>\<open>run["artifacts_url"]\<close>,
  \<^verbatim>\<open>run["html_url"]\<close>; \<^verbatim>\<open>artifact["name"]\<close>, \<^verbatim>\<open>artifact["expired"]\<close>,
  \<^verbatim>\<open>artifact["archive_download_url"]\<close>.
\<close>

record workflow_run =
  run_id :: int
  status :: string
  conclusion :: "string option"
  head_commit_id :: string
  artifacts_url :: string
  html_url :: string

record artifact =
  name :: string
  expired :: bool
  archive_download_url :: string

datatype exn =
    EOFError
  | UnpicklingError
  | ConnectionError
  | JSONDecodeError
  | KeyError string
  | RuntimeError string

datatype body =
    Not_json
  | Json_other
  | Json_runs "workflow_run list"
  | Json_artifacts "artifact list"

record response =
  status_code :: int
  res_text :: string
  json :: body
  links_next :: "string option"

datatype fetch = Raises exn | Reply response

text \<open>\<^verbatim>\<open>session.get(url)\<close>: an exception of the transport, or a response.\<close>

type_synonym session = "string \<Rightarrow> fetch"

fun json_workflow_runs :: "body \<Rightarrow> exn + workflow_run list" where
  "json_workflow_runs Not_json = Inl JSONDecodeError"
| "json_workflow_runs (Json_runs rs) = Inr rs"
| "json_workflow_runs _ = Inl (KeyError ''workflow_runs'')"

fun json_artifacts :: "body \<Rightarrow> exn + artifact list" where
  "json_artifacts Not_json = Inl JSONDecodeError"
| "json_artifacts (Json_artifacts arts) = Inr arts"
| "json_artifacts _ = Inl (KeyError ''artifacts'')"

definition ASSET_BUILDS_URL :: string where
  "ASSET_BUILDS_URL =
     ''https://api.github.com/repos/ornicar/lila/actions/workflows/assets.yml/runs''"

section \<open>What the script prints and fetches\<close>

datatype event = Print string | Http_get string | Ssh string string int

fun str_nat :: "nat \<Rightarrow> string" where
  "str_nat n =
     (if n < 10 then [''0123456789'' ! n]
      else str_nat (n div 10) @ [''0123456789'' ! (n mod 10)])"

declare str_nat.simps [simp del]

definition str_int :: "int \<Rightarrow> string" where
  "str_int i = (if i < 0 then CHR ''-'' # str_nat (nat (- i)) else str_nat (nat i))"

section \<open>The run cache\<close>

text \<open>
  The store is a Python \<^verbatim>\<open>dict\<close> from run id to run.  A \<^verbatim>\<open>dict\<close> iterates in
  insertion order, and \<^verbatim>\<open>find_workflow_run\<close> depends on that order, so the store is an
  association list: assigning to a key that is there replaces the value where it
  stands, assigning to a new key appends.
\<close>

type_synonym store = "(int \<times> workflow_run) list"

fun dict_set :: "'k \<Rightarrow> 'v \<Rightarrow> ('k \<times> 'v) list \<Rightarrow> ('k \<times> 'v) list" where
  "dict_set k v [] = [(k, v)]"
| "dict_set k v ((k', v') # d) =
     (if k' = k then (k', v) # d else (k', v') # dict_set k v d)"

definition dict_get :: "('k \<times> 'v) list \<Rightarrow> 'k \<Rightarrow> 'v option" where
  "dict_get d k = map_of d k"

definition dict_values :: "('k \<times> 'v) list \<Rightarrow> 'v list" where
  "dict_values d = map snd d"

text \<open>
  The file \<^verbatim>\<open>workflow_runs.pickle\<close>: absent, empty, a pickled store, or bytes that do
  not unpickle.  \<^verbatim>\<open>open(..., "ab+")\<close> creates an absent file empty.  \<^verbatim>\<open>pickle.load\<close>
  raises \<^verbatim>\<open>EOFError\<close> on an empty file and \<^verbatim>\<open>UnpicklingError\<close> on bytes that are not a
  pickle.
\<close>

datatype store_file = Absent | Empty_file | Pickle store | Garbage

fun open_ab :: "store_file \<Rightarrow> store_file" where
  "open_ab Absent = Empty_file"
| "open_ab f = f"

fun pickle_load :: "store_file \<Rightarrow> exn + store" where
  "pickle_load (Pickle d) = Inr d"
| "pickle_load Garbage = Inl UnpicklingError"
| "pickle_load _ = Inl EOFError"

text \<open>
  The \<^verbatim>\<open>for run in res.json()["workflow_runs"]\<close> loop of \<^verbatim>\<open>workflow_runs\<close>, on the
  variables \<^verbatim>\<open>data\<close>, \<^verbatim>\<open>new\<close> and \<^verbatim>\<open>synced\<close>.
\<close>

fun merge_page :: "workflow_run list \<Rightarrow> store \<Rightarrow> nat \<Rightarrow> bool \<Rightarrow> store \<times> nat \<times> bool" where
  "merge_page [] data new synced = (data, new, synced)"
| "merge_page (run # runs) data new synced =
     (if (case dict_get data (run_id run) of
            None \<Rightarrow> False
          | Some old \<Rightarrow> status old = ''completed'')
      then merge_page runs (dict_set (run_id run) run data) new True
      else merge_page runs (dict_set (run_id run) run data) (new + 1) synced)"

text \<open>
  One pass through the body of the \<^verbatim>\<open>while not synced\<close> loop, entered with
  \<^verbatim>\<open>synced\<close> false: the loop is left (\<open>Leave\<close>, with the exception that left it, if
  one did), or it goes round again with the \<^verbatim>\<open>next\<close> link as \<^verbatim>\<open>url\<close> (\<open>Again\<close>).
  Both carry \<^verbatim>\<open>data\<close>, \<^verbatim>\<open>new\<close> and the events so far.
\<close>

datatype pass =
    Leave "exn option" store nat "event list"
  | Again string store nat "event list"

definition sync_pass :: "session \<Rightarrow> string \<Rightarrow> store \<Rightarrow> nat \<Rightarrow> event list \<Rightarrow> pass" where
  "sync_pass session url data new tr =
     (case session url of
        Raises e \<Rightarrow>
          Leave (Some e) data new (tr @ [Print ''Fetching workflow runs ...'', Http_get url])
      | Reply res \<Rightarrow>
          if status_code res \<noteq> 200 then
            Leave None data new
              (tr @ [Print ''Fetching workflow runs ...'', Http_get url,
                     Print (''Unexpected response: '' @ str_int (status_code res)
                            @ '' '' @ res_text res)])
          else
            (case json_workflow_runs (json res) of
               Inl e \<Rightarrow>
                 Leave (Some e) data new
                   (tr @ [Print ''Fetching workflow runs ...'', Http_get url])
             | Inr page \<Rightarrow>
                 (case merge_page page data new False of
                    (data', new', synced) \<Rightarrow>
                      (case links_next res of
                         None \<Rightarrow>
                           Leave None data' new'
                             (tr @ [Print ''Fetching workflow runs ...'', Http_get url])
                       | Some next_url \<Rightarrow>
                           if synced then
                             Leave None data' new'
                               (tr @ [Print ''Fetching workflow runs ...'', Http_get url])
                           else
                             Again next_url data' new'
                               (tr @ [Print ''Fetching workflow runs ...'', Http_get url])))))"

text \<open>
  The loop.  Nothing bounds the number of pages: a listing whose \<^verbatim>\<open>next\<close> links never
  end, with no run stored as completed, keeps it running, and the value is then
  \<open>None\<close>.
\<close>

partial_function (option) sync_loop ::
  "session \<Rightarrow> string \<Rightarrow> store \<Rightarrow> nat \<Rightarrow> event list
     \<Rightarrow> (exn option \<times> store \<times> nat \<times> event list) option"
where
  "sync_loop session url data new tr =
     (case sync_pass session url data new tr of
        Leave raised data' new' tr' \<Rightarrow> Some (raised, data', new', tr')
      | Again next_url data' new' tr' \<Rightarrow> sync_loop session next_url data' new' tr')"

text \<open>
  \<^verbatim>\<open>workflow_runs(session, repo)\<close>: the result (the exception that propagates, or the
  store returned), the file as it is left, and the events.  Only \<^verbatim>\<open>EOFError\<close> is
  caught around \<^verbatim>\<open>pickle.load\<close>; the \<^verbatim>\<open>finally\<close> block that rewrites the file belongs
  to the second \<^verbatim>\<open>try\<close>, around the loop.
\<close>

definition workflow_runs ::
  "session \<Rightarrow> store_file \<Rightarrow> ((exn + store) \<times> store_file \<times> event list) option"
where
  "workflow_runs session file =
     (case pickle_load (open_ab file) of
        Inl e \<Rightarrow>
          if e = EOFError then
            (case sync_loop session ASSET_BUILDS_URL [] 0 [Print ''Created workflow run database.''] of
               None \<Rightarrow> None
             | Some (raised, data, new, tr) \<Rightarrow>
                 Some ((case raised of Some e' \<Rightarrow> Inl e' | None \<Rightarrow> Inr data),
                       Pickle data,
                       tr @ [Print (''Added/updated '' @ str_nat new @ '' workflow run(s).'')]))
          else Some (Inl e, open_ab file, [])
      | Inr loaded \<Rightarrow>
          (case sync_loop session ASSET_BUILDS_URL loaded 0 [] of
             None \<Rightarrow> None
           | Some (raised, data, new, tr) \<Rightarrow>
               Some ((case raised of Some e' \<Rightarrow> Inl e' | None \<Rightarrow> Inr data),
                     Pickle data,
                     tr @ [Print (''Added/updated '' @ str_nat new @ '' workflow run(s).'')])))"

section \<open>Selecting a run, locating its artifact\<close>

text \<open>
  The loop of \<^verbatim>\<open>find_workflow_run\<close> over \<^verbatim>\<open>runs.values()\<close>, on the variable \<^verbatim>\<open>found\<close>.
  \<^verbatim>\<open>wanted_commits\<close> is a Python \<^verbatim>\<open>set\<close>.
\<close>

fun select_loop ::
  "workflow_run list \<Rightarrow> string set \<Rightarrow> workflow_run option \<Rightarrow> event list
     \<Rightarrow> workflow_run option \<times> event list"
where
  "select_loop [] wanted_commits found tr = (found, tr)"
| "select_loop (run # runs) wanted_commits found tr =
     (if head_commit_id run \<notin> wanted_commits then select_loop runs wanted_commits found tr
      else if status run \<noteq> ''completed'' then
        select_loop runs wanted_commits found (tr @ [Print (''- '' @ html_url run @ '' pending.'')])
      else if conclusion run \<noteq> Some ''success'' then
        select_loop runs wanted_commits found (tr @ [Print (''- '' @ html_url run @ '' failed.'')])
      else
        select_loop runs wanted_commits (if found = None then Some run else found)
          (tr @ [Print (''- '' @ html_url run @ '' succeeded.'')]))"

definition find_workflow_run :: "store \<Rightarrow> string set \<Rightarrow> (exn + workflow_run) \<times> event list" where
  "find_workflow_run runs wanted_commits =
     (case select_loop (dict_values runs) wanted_commits None [Print ''Matching workflow runs:''] of
        (None, tr) \<Rightarrow>
          (Inl (RuntimeError ''Did not find successful matching workflow run.''), tr)
      | (Some found, tr) \<Rightarrow>
          (Inr found, tr @ [Print (''Selected '' @ html_url found @ ''.'')]))"

text \<open>The loop of \<^verbatim>\<open>artifact_url\<close> over the artifacts of the listing.\<close>

fun artifact_loop :: "artifact list \<Rightarrow> string \<Rightarrow> (exn + string) \<times> event list" where
  "artifact_loop [] wanted_name =
     (Inl (RuntimeError (''Did not find artifact '' @ wanted_name @ ''.'')), [])"
| "artifact_loop (a # arts) wanted_name =
     (if name a = wanted_name then
        (Inr (archive_download_url a), if expired a then [Print ''Artifact expired.''] else [])
      else artifact_loop arts wanted_name)"

definition artifact_url :: "session \<Rightarrow> workflow_run \<Rightarrow> string \<Rightarrow> (exn + string) \<times> event list" where
  "artifact_url session run wanted_name =
     (case session (artifacts_url run) of
        Raises e \<Rightarrow> (Inl e, [Http_get (artifacts_url run)])
      | Reply res \<Rightarrow>
          (case json_artifacts (json res) of
             Inl e \<Rightarrow> (Inl e, [Http_get (artifacts_url run)])
           | Inr arts \<Rightarrow>
               (case artifact_loop arts wanted_name of
                  (r, tr) \<Rightarrow> (r, Http_get (artifacts_url run) # tr))))"

section \<open>The script\<close>

text \<open>
  What \<^verbatim>\<open>main\<close> reads from its surroundings: the environment variable
  \<^verbatim>\<open>GITHUB_API_TOKEN\<close>, the provider as it answers a session that carries a given
  \<^verbatim>\<open>Authorization\<close> header, the head commit of the repository found from the working
  directory, the file \<^verbatim>\<open>workflow_runs.pickle\<close> in its common directory, and the exit
  code of the \<^verbatim>\<open>ssh\<close> session for a given header, download URL and run id.  The shell
  command that \<^verbatim>\<open>main\<close> assembles for that session is kept as these three values.
\<close>

record world =
  env_token :: "string option"
  provider :: "string \<Rightarrow> session"
  head_commit :: commit
  runs_file :: store_file
  ssh_exit :: "string \<Rightarrow> string \<Rightarrow> int \<Rightarrow> int"

datatype outcome = Exit int | Uncaught exn

definition deploy ::
  "world \<Rightarrow> string \<Rightarrow> store_file \<Rightarrow> event list \<Rightarrow> workflow_run \<Rightarrow> string
     \<Rightarrow> outcome \<times> store_file \<times> event list"
where
  "deploy w header file tr run url =
     (Exit (ssh_exit w header url (run_id run)), file,
      tr @ [Print (''Deploying '' @ url @ '' to khiaw ...''), Ssh header url (run_id run)])"

definition resolve ::
  "world \<Rightarrow> string \<Rightarrow> store \<Rightarrow> store_file \<Rightarrow> event list \<Rightarrow> outcome \<times> store_file \<times> event list"
where
  "resolve w header runs file tr =
     (case hash_files (tree (head_commit w)) ASSET_FILES of
        None \<Rightarrow> (Exit 1, file, tr @ [Print ''Commit is missing asset file.''])
      | Some wanted_hash \<Rightarrow>
          (case find_workflow_run runs (set (find_commits (head_commit w) ASSET_FILES wanted_hash)) of
             (Inl e, tr_select) \<Rightarrow>
               (Uncaught e, file,
                tr @ [Print (''Found ''
                        @ str_nat (card (set (find_commits (head_commit w) ASSET_FILES wanted_hash)))
                        @ '' matching commits.'')] @ tr_select)
           | (Inr run, tr_select) \<Rightarrow>
               (case artifact_url (provider w header) run ''lila-assets'' of
                  (Inl e, tr_artifact) \<Rightarrow>
                    (Uncaught e, file,
                     tr @ [Print (''Found ''
                             @ str_nat (card (set (find_commits (head_commit w) ASSET_FILES wanted_hash)))
                             @ '' matching commits.'')] @ tr_select @ tr_artifact)
                | (Inr url, tr_artifact) \<Rightarrow>
                    deploy w header file
                      (tr @ [Print (''Found ''
                               @ str_nat (card (set (find_commits (head_commit w) ASSET_FILES wanted_hash)))
                               @ '' matching commits.'')] @ tr_select @ tr_artifact)
                      run url)))"

text \<open>
  \<^verbatim>\<open>main()\<close>, as \<^verbatim>\<open>sys.exit(main())\<close> runs it: the exit code returned or the exception
  that nothing catches, the file as it is left, and the events in the order they
  happen.  \<^verbatim>\<open>workflow_runs\<close> is called before \<^verbatim>\<open>hash_files\<close> is.
\<close>

definition main :: "world \<Rightarrow> (outcome \<times> store_file \<times> event list) option" where
  "main w =
     (case env_token w of
        None \<Rightarrow>
          Some (Exit 128, runs_file w,
            [Print (''Need environment variable GITHUB_API_TOKEN. ''
                    @ ''See https://github.com/settings/tokens/new. Scope public_repo.'')])
      | Some github_api_token \<Rightarrow>
          (case workflow_runs (provider w (''token '' @ github_api_token)) (runs_file w) of
             None \<Rightarrow> None
           | Some (Inl e, file, tr) \<Rightarrow> Some (Uncaught e, file, tr)
           | Some (Inr runs, file, tr) \<Rightarrow>
               Some (resolve w (''token '' @ github_api_token) runs file tr)))"

section \<open>The selection policy, as the specification words it\<close>

text \<open>
  A run qualifies when its source commit is among the matching commits; it is
  successful when its status is completed and its conclusion success; its disposition
  is reported as pending, failed or succeeded.
\<close>

definition qualifies :: "string set \<Rightarrow> workflow_run \<Rightarrow> bool" where
  "qualifies wanted_commits run = (head_commit_id run \<in> wanted_commits)"

definition successful :: "workflow_run \<Rightarrow> bool" where
  "successful run = (status run = ''completed'' \<and> conclusion run = Some ''success'')"

definition disposition :: "workflow_run \<Rightarrow> event" where
  "disposition run =
     Print (''- '' @ html_url run @
       (if status run \<noteq> ''completed'' then '' pending.''
        else if conclusion run \<noteq> Some ''success'' then '' failed.''
        else '' succeeded.''))"

section \<open>The sync, as the specification words it\<close>

text \<open>
  Merging a page overwrites by run id, run after run.  A page meets a completed run
  when one of its runs, at the moment it is merged, has its id in the store with the
  stored status completed.  The loop reaches a state (the \<^verbatim>\<open>url\<close> to fetch next,
  \<^verbatim>\<open>data\<close>, \<^verbatim>\<open>new\<close>, the events so far) from its starting state through passes that
  go round again.
\<close>

definition apply_page :: "store \<Rightarrow> workflow_run list \<Rightarrow> store" where
  "apply_page data page = foldl (\<lambda>d run. dict_set (run_id run) run d) data page"

definition stored_completed :: "store \<Rightarrow> int \<Rightarrow> bool" where
  "stored_completed data k =
     (case dict_get data k of None \<Rightarrow> False | Some old \<Rightarrow> status old = ''completed'')"

definition meets_completed :: "store \<Rightarrow> workflow_run list \<Rightarrow> bool" where
  "meets_completed data page =
     (\<exists>i < length page. stored_completed (apply_page data (take i page)) (run_id (page ! i)))"

type_synonym loop_state = "string \<times> store \<times> nat \<times> event list"

inductive sync_reaches :: "session \<Rightarrow> loop_state \<Rightarrow> loop_state \<Rightarrow> bool"
  for session
where
  here: "sync_reaches session s s"
| again: "sync_reaches session s (url, data, new, tr)
     \<Longrightarrow> sync_pass session url data new tr = Again url' data' new' tr'
     \<Longrightarrow> sync_reaches session s (url', data', new', tr')"

text \<open>
  What the sync starts from when opening the file does not fail: the store that was
  pickled, or the empty store for a file that is absent or empty, which is announced.
\<close>

fun loaded :: "store_file \<Rightarrow> store" where
  "loaded (Pickle d) = d"
| "loaded _ = []"

fun load_events :: "store_file \<Rightarrow> event list" where
  "load_events (Pickle d) = []"
| "load_events _ = [Print ''Created workflow run database.'']"

section \<open>Example inputs\<close>

definition R1 :: workflow_run where
  "R1 = \<lparr>run_id = 11, status = ''completed'', conclusion = Some ''failure'',
         head_commit_id = ''A'', artifacts_url = ''art/11'', html_url = ''runs/11''\<rparr>"

definition R2 :: workflow_run where
  "R2 = \<lparr>run_id = 7, status = ''completed'', conclusion = Some ''success'',
         head_commit_id = ''B'', artifacts_url = ''art/7'', html_url = ''runs/7''\<rparr>"

definition lila_assets_listing :: "artifact list" where
  "lila_assets_listing =
     [\<lparr>name = ''Lila-Assets'', expired = False, archive_download_url = ''zip/1''\<rparr>,
      \<lparr>name = ''lila-assets'', expired = True, archive_download_url = ''zip/2''\<rparr>]"

definition artifacts_session :: "artifact list \<Rightarrow> session" where
  "artifacts_session arts url =
     Reply \<lparr>status_code = 200, res_text = [], json = Json_artifacts arts, links_next = None\<rparr>"

definition R3 :: workflow_run where
  "R3 = \<lparr>run_id = 12, status = ''in_progress'', conclusion = None,
         head_commit_id = ''A'', artifacts_url = ''art/12'', html_url = ''runs/12''\<rparr>"

definition first_page :: response where
  "first_page = \<lparr>status_code = 200, res_text = [], json = Json_runs [R3, R2],
                  links_next = Some ''runs?page=2''\<rparr>"

definition listing :: session where
  "listing url =
     (if url = ASSET_BUILDS_URL then Reply first_page
      else if url = ''runs?page=2'' then
        Reply \<lparr>status_code = 200, res_text = [], json = Json_runs [R1], links_next = None\<rparr>
      else Raises ConnectionError)"

section \<open>The ancestry walk\<close>



















section \<open>The run selector\<close>

lemma select_loop_eq:
  "select_loop rs wanted found tr =
     ((case found of
         Some f \<Rightarrow> Some f
       | None \<Rightarrow> find (\<lambda>r. qualifies wanted r \<and> successful r) rs),
      tr @ map disposition (filter (qualifies wanted) rs))"
  by (induction rs arbitrary: found tr)
     (auto simp: qualifies_def successful_def disposition_def split: option.splits)

lemma find_workflow_run_eq:
  "find_workflow_run runs wanted =
     (case find (\<lambda>r. qualifies wanted r \<and> successful r) (dict_values runs) of
        None \<Rightarrow>
          (Inl (RuntimeError ''Did not find successful matching workflow run.''),
           Print ''Matching workflow runs:'' # map disposition (filter (qualifies wanted) (dict_values runs)))
      | Some r \<Rightarrow>
          (Inr r,
           Print ''Matching workflow runs:'' # map disposition (filter (qualifies wanted) (dict_values runs))
             @ [Print (''Selected '' @ html_url r @ ''.'')]))"
  by (simp add: find_workflow_run_def select_loop_eq split: option.splits)

text \<open>
  Claim C3.  \<^verbatim>\<open>find_workflow_run\<close> returns the first run, in the iteration order of
  the store, whose source commit is in the matching set, whose status is completed
  and whose conclusion is success, and it reports the disposition of every qualifying
  run, in that order; a run it returns satisfies all three conditions; when no
  qualifying run is successful it raises the error that no successful matching run
  was found.  With a failed run for commit A and then a successful run for commit B,
  A and B matching, both are reported and the second is selected.
\<close>

theorem find_workflow_run_selects_first_success:
  "find_workflow_run runs wanted =
     (case find (\<lambda>r. qualifies wanted r \<and> successful r) (dict_values runs) of
        None \<Rightarrow>
          (Inl (RuntimeError ''Did not find successful matching workflow run.''),
           Print ''Matching workflow runs:'' # map disposition (filter (qualifies wanted) (dict_values runs)))
      | Some r \<Rightarrow>
          (Inr r,
           Print ''Matching workflow runs:'' # map disposition (filter (qualifies wanted) (dict_values runs))
             @ [Print (''Selected '' @ html_url r @ ''.'')]))
   \<and> (\<forall>r. fst (find_workflow_run runs wanted) = Inr r \<longrightarrow>
         r \<in> set (dict_values runs) \<and> head_commit_id r \<in> wanted
         \<and> status r = ''completed'' \<and> conclusion r = Some ''success'')
   \<and> ((\<forall>r \<in> set (dict_values runs). \<not> (qualifies wanted r \<and> successful r)) \<longrightarrow>
         fst (find_workflow_run runs wanted)
           = Inl (RuntimeError ''Did not find successful matching workflow run.''))
   \<and> (\<forall>i1 r1 i2 r2 a b.
         runs = [(i1, r1), (i2, r2)] \<and> wanted = {a, b}
         \<and> head_commit_id r1 = a \<and> status r1 = ''completed'' \<and> conclusion r1 = Some ''failure''
         \<and> head_commit_id r2 = b \<and> status r2 = ''completed'' \<and> conclusion r2 = Some ''success''
         \<longrightarrow> find_workflow_run runs wanted =
               (Inr r2,
                [Print ''Matching workflow runs:'',
                 Print (''- '' @ html_url r1 @ '' failed.''),
                 Print (''- '' @ html_url r2 @ '' succeeded.''),
                 Print (''Selected '' @ html_url r2 @ ''.'')]))"
proof (intro conjI allI impI)
  show "find_workflow_run runs wanted =
     (case find (\<lambda>r. qualifies wanted r \<and> successful r) (dict_values runs) of
        None \<Rightarrow>
          (Inl (RuntimeError ''Did not find successful matching workflow run.''),
           Print ''Matching workflow runs:'' # map disposition (filter (qualifies wanted) (dict_values runs)))
      | Some r \<Rightarrow>
          (Inr r,
           Print ''Matching workflow runs:'' # map disposition (filter (qualifies wanted) (dict_values runs))
             @ [Print (''Selected '' @ html_url r @ ''.'')]))"
    by (rule find_workflow_run_eq)
next
  fix r
  assume "fst (find_workflow_run runs wanted) = Inr r"
  then have "find (\<lambda>r. qualifies wanted r \<and> successful r) (dict_values runs) = Some r"
    by (simp add: find_workflow_run_eq split: option.splits)
  then have "r \<in> set (dict_values runs) \<and> qualifies wanted r \<and> successful r"
    by (auto simp: find_Some_iff)
  then show "r \<in> set (dict_values runs)" "head_commit_id r \<in> wanted"
    "status r = ''completed''" "conclusion r = Some ''success''"
    by (simp_all add: qualifies_def successful_def)
next
  assume "\<forall>r \<in> set (dict_values runs). \<not> (qualifies wanted r \<and> successful r)"
  then have "find (\<lambda>r. qualifies wanted r \<and> successful r) (dict_values runs) = None"
    by (simp add: find_None_iff)
  then show "fst (find_workflow_run runs wanted)
      = Inl (RuntimeError ''Did not find successful matching workflow run.'')"
    by (simp add: find_workflow_run_eq)
next
  fix i1 r1 i2 r2 a b
  assume "runs = [(i1, r1), (i2, r2)] \<and> wanted = {a, b}
         \<and> head_commit_id r1 = a \<and> status r1 = ''completed'' \<and> conclusion r1 = Some ''failure''
         \<and> head_commit_id r2 = b \<and> status r2 = ''completed'' \<and> conclusion r2 = Some ''success''"
  then show "find_workflow_run runs wanted =
               (Inr r2,
                [Print ''Matching workflow runs:'',
                 Print (''- '' @ html_url r1 @ '' failed.''),
                 Print (''- '' @ html_url r2 @ '' succeeded.''),
                 Print (''Selected '' @ html_url r2 @ ''.'')])"
    by (simp add: find_workflow_run_eq dict_values_def qualifies_def successful_def disposition_def)
qed

theorem find_workflow_run_selects_first_success_witness:
  "find_workflow_run [(11, R1), (7, R2)] {''A'', ''B''} =
     (Inr R2,
      [Print ''Matching workflow runs:'', Print ''- runs/11 failed.'',
       Print ''- runs/7 succeeded.'', Print ''Selected runs/7.''])
   \<and> R2 \<in> set (dict_values [(11, R1), (7, R2)]) \<and> head_commit_id R2 \<in> {''A'', ''B''}
   \<and> status R2 = ''completed'' \<and> conclusion R2 = Some ''success''
   \<and> fst (find_workflow_run [(11, R1)] {''A'', ''B''})
       = Inl (RuntimeError ''Did not find successful matching workflow run.'')"
  using find_workflow_run_selects_first_success [of "[(11, R1), (7, R2)]" "{''A'', ''B''}"]
    find_workflow_run_selects_first_success [of "[(11, R1)]" "{''A'', ''B''}"]
  by (simp add: R1_def R2_def dict_values_def qualifies_def successful_def disposition_def)

section \<open>The artifact locator\<close>

lemma artifact_loop_eq:
  "artifact_loop arts nm =
     (case find (\<lambda>a. name a = nm) arts of
        None \<Rightarrow> (Inl (RuntimeError (''Did not find artifact '' @ nm @ ''.'')), [])
      | Some a \<Rightarrow>
          (Inr (archive_download_url a), if expired a then [Print ''Artifact expired.''] else []))"
  by (induction arts) simp_all

text \<open>
  Claim C9.  Given the artifact listing of the run, \<^verbatim>\<open>artifact_url\<close> returns a download
  URL if and only if some artifact of the listing has exactly the wanted name (the
  comparison is equality of strings, so names that differ in case do not match), and
  raises the error that the artifact was not found otherwise; the URL is that of the
  first such artifact, and when that artifact is flagged expired the warning is
  printed and the URL is returned all the same.
\<close>

theorem artifact_url_exact_name:
  assumes "session (artifacts_url run) = Reply res"
    and "json res = Json_artifacts arts"
  shows "artifact_url session run nm =
     (case find (\<lambda>a. name a = nm) arts of
        None \<Rightarrow>
          (Inl (RuntimeError (''Did not find artifact '' @ nm @ ''.'')),
           [Http_get (artifacts_url run)])
      | Some a \<Rightarrow>
          (Inr (archive_download_url a),
           Http_get (artifacts_url run) # (if expired a then [Print ''Artifact expired.''] else [])))
   \<and> ((\<exists>url. fst (artifact_url session run nm) = Inr url) \<longleftrightarrow> (\<exists>a \<in> set arts. name a = nm))
   \<and> ((\<forall>a \<in> set arts. name a \<noteq> nm) \<longrightarrow>
         fst (artifact_url session run nm)
           = Inl (RuntimeError (''Did not find artifact '' @ nm @ ''.'')))
   \<and> (\<forall>a. find (\<lambda>a. name a = nm) arts = Some a \<and> expired a \<longrightarrow>
         artifact_url session run nm =
           (Inr (archive_download_url a),
            [Http_get (artifacts_url run), Print ''Artifact expired.'']))"
proof -
  have eq: "artifact_url session run nm =
     (case find (\<lambda>a. name a = nm) arts of
        None \<Rightarrow>
          (Inl (RuntimeError (''Did not find artifact '' @ nm @ ''.'')),
           [Http_get (artifacts_url run)])
      | Some a \<Rightarrow>
          (Inr (archive_download_url a),
           Http_get (artifacts_url run) # (if expired a then [Print ''Artifact expired.''] else [])))"
    using assms by (simp add: artifact_url_def artifact_loop_eq split: option.splits)
  have iff: "(\<exists>url. fst (artifact_url session run nm) = Inr url) \<longleftrightarrow> (\<exists>a \<in> set arts. name a = nm)"
  proof (cases "find (\<lambda>a. name a = nm) arts")
    case None
    then have "\<forall>a \<in> set arts. name a \<noteq> nm" by (simp add: find_None_iff)
    then show ?thesis using None by (auto simp: eq)
  next
    case (Some a)
    then have "a \<in> set arts \<and> name a = nm" by (auto simp: find_Some_iff)
    then show ?thesis using Some by (auto simp: eq)
  qed
  have none: "(\<forall>a \<in> set arts. name a \<noteq> nm) \<longrightarrow>
         fst (artifact_url session run nm)
           = Inl (RuntimeError (''Did not find artifact '' @ nm @ ''.''))"
  proof
    assume "\<forall>a \<in> set arts. name a \<noteq> nm"
    then have "find (\<lambda>a. name a = nm) arts = None" by (simp add: find_None_iff)
    then show "fst (artifact_url session run nm)
           = Inl (RuntimeError (''Did not find artifact '' @ nm @ ''.''))"
      by (simp add: eq)
  qed
  have ex: "\<forall>a. find (\<lambda>a. name a = nm) arts = Some a \<and> expired a \<longrightarrow>
         artifact_url session run nm =
           (Inr (archive_download_url a),
            [Http_get (artifacts_url run), Print ''Artifact expired.''])"
    by (simp add: eq)
  show ?thesis using eq iff none ex by blast
qed

theorem artifact_url_exact_name_witness:
  "artifact_url (artifacts_session lila_assets_listing) R2 ''lila-assets''
     = (Inr ''zip/2'', [Http_get ''art/7'', Print ''Artifact expired.''])
   \<and> artifact_url (artifacts_session [\<lparr>name = ''Lila-Assets'', expired = False, archive_download_url = ''zip/1''\<rparr>])
        R2 ''lila-assets''
     = (Inl (RuntimeError ''Did not find artifact lila-assets.''), [Http_get ''art/7''])"
  using artifact_url_exact_name
      [where session = "artifacts_session lila_assets_listing" and run = R2
         and res = "\<lparr>status_code = 200, res_text = [], json = Json_artifacts lila_assets_listing,
                     links_next = None\<rparr>"
         and arts = lila_assets_listing and nm = "''lila-assets''"]
    artifact_url_exact_name
      [where session = "artifacts_session
           [\<lparr>name = ''Lila-Assets'', expired = False, archive_download_url = ''zip/1''\<rparr>]"
         and run = R2
         and res = "\<lparr>status_code = 200, res_text = [],
                     json = Json_artifacts
                       [\<lparr>name = ''Lila-Assets'', expired = False, archive_download_url = ''zip/1''\<rparr>],
                     links_next = None\<rparr>"
         and arts = "[\<lparr>name = ''Lila-Assets'', expired = False, archive_download_url = ''zip/1''\<rparr>]"
         and nm = "''lila-assets''"]
  by (simp add: artifacts_session_def lila_assets_listing_def R2_def)

section \<open>The run cache: merging and pagination\<close>

lemma dict_get_dict_set:
  "dict_get (dict_set k v d) k' = (if k' = k then Some v else dict_get d k')"
  by (induction d) (auto simp: dict_get_def)

lemma keys_dict_set: "fst ` set (dict_set k v d) = insert k (fst ` set d)"
  by (induction k v d rule: dict_set.induct) (simp_all add: insert_commute)

lemma apply_page_Nil: "apply_page data [] = data"
  by (simp add: apply_page_def)

lemma apply_page_Cons:
  "apply_page data (run # page) = apply_page (dict_set (run_id run) run data) page"
  by (simp add: apply_page_def)

lemma apply_page_snoc:
  "apply_page data (page @ [run]) = dict_set (run_id run) run (apply_page data page)"
  by (simp add: apply_page_def)

lemma merge_page_data: "fst (merge_page page data new synced) = apply_page data page"
  by (induction page arbitrary: data new synced) (simp_all add: apply_page_Nil apply_page_Cons)

lemma meets_completed_Nil: "\<not> meets_completed data []"
  by (simp add: meets_completed_def)

lemma meets_completed_Cons:
  "meets_completed data (run # page) \<longleftrightarrow>
     stored_completed data (run_id run) \<or> meets_completed (dict_set (run_id run) run data) page"
proof -
  have "(\<exists>i < Suc (length page). stored_completed (apply_page data (take i (run # page))) (run_id ((run # page) ! i)))
      \<longleftrightarrow> stored_completed (apply_page data (take 0 (run # page))) (run_id ((run # page) ! 0))
        \<or> (\<exists>i < length page. stored_completed (apply_page data (take (Suc i) (run # page))) (run_id ((run # page) ! Suc i)))"
    by (metis less_Suc_eq_0_disj)
  then show ?thesis
    by (simp add: meets_completed_def apply_page_Nil apply_page_Cons)
qed

lemma merge_page_synced:
  "snd (snd (merge_page page data new synced)) \<longleftrightarrow> synced \<or> meets_completed data page"
  by (induction page arbitrary: data new synced)
     (auto simp: meets_completed_Nil meets_completed_Cons stored_completed_def)

lemma dict_get_apply_page_other:
  "k \<notin> run_id ` set page \<Longrightarrow> dict_get (apply_page data page) k = dict_get data k"
  by (induction page arbitrary: data) (simp_all add: apply_page_Nil apply_page_Cons dict_get_dict_set)

lemma dict_get_apply_page:
  "dict_get (apply_page data page) k =
     (case find (\<lambda>run. run_id run = k) (rev page) of
        None \<Rightarrow> dict_get data k
      | Some run \<Rightarrow> Some run)"
proof (induction page rule: rev_induct)
  case Nil
  then show ?case by (simp add: apply_page_Nil)
next
  case (snoc run page)
  then show ?case by (simp add: apply_page_snoc dict_get_dict_set)
qed

lemma keys_apply_page: "fst ` set (apply_page data page) = fst ` set data \<union> run_id ` set page"
  by (induction page arbitrary: data) (auto simp: apply_page_Nil apply_page_Cons keys_dict_set)

lemma meets_completed_first:
  assumes "run \<in> set page" and "stored_completed data (run_id run)"
  shows "meets_completed data page"
  using assms
proof (induction page arbitrary: data)
  case Nil
  then show ?case by simp
next
  case (Cons r page)
  show ?case
  proof (cases "stored_completed data (run_id r)")
    case True
    then show ?thesis by (simp add: meets_completed_Cons)
  next
    case False
    then have ne: "run_id r \<noteq> run_id run" using Cons.prems by auto
    then have "run \<in> set page" using Cons.prems by auto
    moreover have "stored_completed (dict_set (run_id r) r data) (run_id run)"
      using Cons.prems ne by (simp add: stored_completed_def dict_get_dict_set)
    ultimately show ?thesis using Cons.IH by (simp add: meets_completed_Cons)
  qed
qed

lemma sync_loop_reaches:
  "sync_reaches session s s' \<Longrightarrow>
   sync_loop session (fst s) (fst (snd s)) (fst (snd (snd s))) (snd (snd (snd s)))
     = sync_loop session (fst s') (fst (snd s')) (fst (snd (snd s'))) (snd (snd (snd s')))"
proof (induction rule: sync_reaches.induct)
  case here
  then show ?case by simp
next
  case (again s url data new tr url' data' new' tr')
  have "sync_loop session url data new tr = sync_loop session url' data' new' tr'"
    using again.hyps(2) by (subst sync_loop.simps) simp
  then show ?case using again.IH by simp
qed

lemma sync_loop_leaves:
  assumes "sync_reaches session (url0, data0, new0, tr0) (url, data, new, tr)"
    and "sync_pass session url data new tr = Leave raised data' new' tr'"
  shows "sync_loop session url0 data0 new0 tr0 = Some (raised, data', new', tr')"
proof -
  have "sync_loop session url0 data0 new0 tr0 = sync_loop session url data new tr"
    using sync_loop_reaches [OF assms(1)] by simp
  also have "\<dots> = Some (raised, data', new', tr')"
    using assms(2) by (subst sync_loop.simps) simp
  finally show ?thesis .
qed

lemma sync_reaches_first:
  assumes "sync_reaches session s' s"
    and "sync_pass session url data new tr
           = Again (fst s') (fst (snd s')) (fst (snd (snd s'))) (snd (snd (snd s')))"
  shows "sync_reaches session (url, data, new, tr) s"
  using assms
proof (induction rule: sync_reaches.induct)
  case (here s)
  have "sync_reaches session (url, data, new, tr) (url, data, new, tr)"
    by (rule sync_reaches.here)
  from sync_reaches.again [OF this here] show ?case by simp
next
  case (again s u d n t u' d' n' t')
  then show ?case by (meson sync_reaches.again)
qed

lemma sync_loop_Some:
  assumes "sync_loop session url data new tr = Some res"
  shows "\<exists>u d n t. sync_reaches session (url, data, new, tr) (u, d, n, t)
           \<and> sync_pass session u d n t
               = Leave (fst res) (fst (snd res)) (fst (snd (snd res))) (snd (snd (snd res)))"
proof (rule sync_loop.raw_induct
    [where P = "\<lambda>session url data new tr res.
       \<exists>u d n t. sync_reaches session (url, data, new, tr) (u, d, n, t)
           \<and> sync_pass session u d n t
               = Leave (fst res) (fst (snd res)) (fst (snd (snd res))) (snd (snd (snd res)))",
     OF _ assms])
  fix loop :: "session \<Rightarrow> string \<Rightarrow> store \<Rightarrow> nat \<Rightarrow> event list
      \<Rightarrow> (exn option \<times> store \<times> nat \<times> event list) option"
  fix session url data new tr res
  assume ih: "\<And>session url data new tr res. loop session url data new tr = Some res \<Longrightarrow>
      \<exists>u d n t. sync_reaches session (url, data, new, tr) (u, d, n, t)
           \<and> sync_pass session u d n t
               = Leave (fst res) (fst (snd res)) (fst (snd (snd res))) (snd (snd (snd res)))"
    and body: "(case sync_pass session url data new tr of
        Leave raised data' new' tr' \<Rightarrow> Some (raised, data', new', tr')
      | Again next_url data' new' tr' \<Rightarrow> loop session next_url data' new' tr') = Some res"
  show "\<exists>u d n t. sync_reaches session (url, data, new, tr) (u, d, n, t)
           \<and> sync_pass session u d n t
               = Leave (fst res) (fst (snd res)) (fst (snd (snd res))) (snd (snd (snd res)))"
  proof (cases "sync_pass session url data new tr")
    case (Leave raised data' new' tr')
    then have "res = (raised, data', new', tr')" using body by simp
    then have "sync_pass session url data new tr
        = Leave (fst res) (fst (snd res)) (fst (snd (snd res))) (snd (snd (snd res)))"
      using Leave by simp
    moreover have "sync_reaches session (url, data, new, tr) (url, data, new, tr)"
      by (rule sync_reaches.here)
    ultimately show ?thesis by blast
  next
    case (Again url' data' new' tr')
    then have "loop session url' data' new' tr' = Some res" using body by simp
    from ih [OF this] obtain u d n t where
      r: "sync_reaches session (url', data', new', tr') (u, d, n, t)"
      and l: "sync_pass session u d n t
               = Leave (fst res) (fst (snd res)) (fst (snd (snd res))) (snd (snd (snd res)))"
      by blast
    have "sync_reaches session (url, data, new, tr) (u, d, n, t)"
      using sync_reaches_first [OF r] Again by simp
    then show ?thesis using l by blast
  qed
qed

lemma workflow_runs_loaded:
  "file \<noteq> Garbage \<Longrightarrow>
   workflow_runs session file =
     (case sync_loop session ASSET_BUILDS_URL (loaded file) 0 (load_events file) of
        None \<Rightarrow> None
      | Some (raised, data, new, tr) \<Rightarrow>
          Some ((case raised of Some e \<Rightarrow> Inl e | None \<Rightarrow> Inr data),
                Pickle data,
                tr @ [Print (''Added/updated '' @ str_nat new @ '' workflow run(s).'')]))"
  by (cases "file") (simp_all add: workflow_runs_def)

lemma workflow_runs_leaves:
  assumes "file \<noteq> Garbage"
    and "sync_reaches session (ASSET_BUILDS_URL, loaded file, 0, load_events file) (url, data, new, tr)"
    and "sync_pass session url data new tr = Leave raised data' new' tr'"
  shows "workflow_runs session file =
     Some ((case raised of Some e \<Rightarrow> Inl e | None \<Rightarrow> Inr data'),
           Pickle data',
           tr' @ [Print (''Added/updated '' @ str_nat new' @ '' workflow run(s).'')])"
  using sync_loop_leaves [OF assms(2) assms(3)] assms(1)
  by (simp add: workflow_runs_loaded)

lemma workflow_runs_Some:
  assumes "file \<noteq> Garbage"
    and "workflow_runs session file = Some (result, file', tr)"
  shows "\<exists>url data new tr1 raised data' new' tr'.
       sync_reaches session (ASSET_BUILDS_URL, loaded file, 0, load_events file) (url, data, new, tr1)
     \<and> sync_pass session url data new tr1 = Leave raised data' new' tr'
     \<and> result = (case raised of Some e \<Rightarrow> Inl e | None \<Rightarrow> Inr data')
     \<and> file' = Pickle data'
     \<and> tr = tr' @ [Print (''Added/updated '' @ str_nat new' @ '' workflow run(s).'')]"
proof -
  obtain raised data' new' tr' where
    l: "sync_loop session ASSET_BUILDS_URL (loaded file) 0 (load_events file)
          = Some (raised, data', new', tr')"
    and r: "result = (case raised of Some e \<Rightarrow> Inl e | None \<Rightarrow> Inr data')"
      "file' = Pickle data'"
      "tr = tr' @ [Print (''Added/updated '' @ str_nat new' @ '' workflow run(s).'')]"
    using assms by (auto simp: workflow_runs_loaded split: option.splits)
  from sync_loop_Some [OF l] obtain url data new tr1 where
    "sync_reaches session (ASSET_BUILDS_URL, loaded file, 0, load_events file) (url, data, new, tr1)"
    "sync_pass session url data new tr1 = Leave raised data' new' tr'"
    by auto
  then show ?thesis using r by blast
qed

lemma sync_pass_stop:
  assumes "session url = Reply res" and "status_code res = 200"
    and "json res = Json_runs page" and "meets_completed data page"
  shows "\<exists>new'. sync_pass session url data new tr =
     Leave None (apply_page data page) new'
       (tr @ [Print ''Fetching workflow runs ...'', Http_get url])"
proof -
  obtain d' n' s' where m: "merge_page page data new False = (d', n', s')"
    by (metis prod_cases3)
  have "d' = apply_page data page" using merge_page_data [of page data new False] m by simp
  moreover have "s'" using merge_page_synced [of page data new False] m assms(4) by simp
  ultimately show ?thesis
    using assms(1-3) m by (simp add: sync_pass_def split: option.splits)
qed

lemma sync_pass_store:
  assumes "sync_pass session url data new tr = Leave raised data' new' tr'
         \<or> sync_pass session url data new tr = Again url' data' new' tr'"
  shows "data' = data
       \<or> (\<exists>res page. session url = Reply res \<and> json res = Json_runs page
             \<and> data' = apply_page data page)"
proof (cases "session url")
  case (Raises e)
  then show ?thesis using assms by (simp add: sync_pass_def)
next
  case (Reply res)
  show ?thesis
  proof (cases "status_code res = 200")
    case False
    then show ?thesis using assms Reply by (simp add: sync_pass_def)
  next
    case True
    show ?thesis
    proof (cases "json_workflow_runs (json res)")
      case (Inl e)
      then show ?thesis using assms Reply True by (simp add: sync_pass_def)
    next
      case (Inr page)
      then have j: "json res = Json_runs page"
        by (cases "json res") simp_all
      obtain d' n' s' where m: "merge_page page data new False = (d', n', s')"
        by (metis prod_cases3)
      have d': "d' = apply_page data page"
        using merge_page_data [of page data new False] m by simp
      have "data' = d'"
        using assms Reply True Inr m
        by (auto simp: sync_pass_def split: option.splits if_splits)
      then show ?thesis using d' j Reply by blast
    qed
  qed
qed

lemma sync_reaches_store_rel:
  assumes "sync_reaches session s s'"
    and "\<And>d. R d d" and "\<And>a b c. R a b \<Longrightarrow> R b c \<Longrightarrow> R a c"
    and "\<And>d url res page. session url = Reply res \<Longrightarrow> json res = Json_runs page
           \<Longrightarrow> R d (apply_page d page)"
  shows "R (fst (snd s)) (fst (snd s'))"
  using assms(1)
proof (induction rule: sync_reaches.induct)
  case (here s)
  then show ?case by (rule assms(2))
next
  case (again s url data new tr url' data' new' tr')
  have "R data data'"
    using sync_pass_store [of session url data new tr _ data' _ _ url'] again.hyps(2)
      assms(2) assms(4) by metis
  then show ?case using again.IH assms(3) by fastforce
qed

lemma workflow_runs_store_rel:
  assumes "file \<noteq> Garbage"
    and "workflow_runs session file = Some (result, file', tr)"
    and "\<And>d. R d d" and "\<And>a b c. R a b \<Longrightarrow> R b c \<Longrightarrow> R a c"
    and "\<And>d url res page. session url = Reply res \<Longrightarrow> json res = Json_runs page
           \<Longrightarrow> R d (apply_page d page)"
  shows "\<exists>data'. file' = Pickle data' \<and> R (loaded file) data'
           \<and> (\<forall>d. result = Inr d \<longrightarrow> d = data')"
proof -
  from workflow_runs_Some [OF assms(1) assms(2)] obtain url data new tr1 raised data' new' tr' where
    r: "sync_reaches session (ASSET_BUILDS_URL, loaded file, 0, load_events file) (url, data, new, tr1)"
    and p: "sync_pass session url data new tr1 = Leave raised data' new' tr'"
    and res: "result = (case raised of Some e \<Rightarrow> Inl e | None \<Rightarrow> Inr data')"
    and f: "file' = Pickle data'"
    by blast
  have "R (loaded file) data"
    using sync_reaches_store_rel [OF r, of R] assms(3-5) by simp
  moreover have "R data data'"
    using sync_pass_store [of session url data new tr1 raised data' new' tr'] p
      assms(3) assms(5) by metis
  ultimately have "R (loaded file) data'" using assms(4) by blast
  moreover have "\<forall>d. result = Inr d \<longrightarrow> d = data'"
    using res by (auto split: option.splits)
  ultimately show ?thesis using f by blast
qed

text \<open>
  Claim C2.  When the loop has reached a page (from the first \<^verbatim>\<open>url\<close>, the loaded store
  and no new run) and a run of that page has its id in the store with the stored
  status completed at the moment it is merged (in particular when some run of the page
  is stored as completed when the page arrives), the pass leaves the loop after that
  page, whatever \<^verbatim>\<open>next\<close> link the page carries: every run of the page is merged,
  nothing more is fetched, and the store returned and persisted is the store at the
  start of the page with that page merged.  On the first page that is the loaded store
  with only that page's updates.
\<close>

theorem sync_stops_after_page_with_completed_run:
  assumes "db \<noteq> Garbage"
    and "sync_reaches session (ASSET_BUILDS_URL, loaded db, 0, load_events db) (url, data, new, tr)"
    and "session url = Reply res" and "status_code res = 200" and "json res = Json_runs page"
    and "meets_completed data page \<or> (\<exists>run \<in> set page. stored_completed data (run_id run))"
  shows "\<exists>new'.
      sync_pass session url data new tr =
        Leave None (apply_page data page) new'
          (tr @ [Print ''Fetching workflow runs ...'', Http_get url])
    \<and> workflow_runs session db =
        Some (Inr (apply_page data page), Pickle (apply_page data page),
              tr @ [Print ''Fetching workflow runs ...'', Http_get url,
                    Print (''Added/updated '' @ str_nat new' @ '' workflow run(s).'')])"
proof -
  have "meets_completed data page" using assms(6) meets_completed_first by blast
  from sync_pass_stop [where session = session and url = url and new = new and tr = tr,
      OF assms(3) assms(4) assms(5) this]
  obtain new' where
    p: "sync_pass session url data new tr =
        Leave None (apply_page data page) new'
          (tr @ [Print ''Fetching workflow runs ...'', Http_get url])"
    by blast
  show ?thesis using p workflow_runs_leaves [OF assms(1) assms(2) p] by auto
qed

theorem sync_stops_after_page_with_completed_run_witness:
  "workflow_runs listing (Pickle [(7, R2)]) =
     Some (Inr [(7, R2), (12, R3)], Pickle [(7, R2), (12, R3)],
           [Print ''Fetching workflow runs ...'', Http_get ASSET_BUILDS_URL,
            Print ''Added/updated 1 workflow run(s).''])"
proof -
  have g: "Pickle [(7, R2)] \<noteq> Garbage" by simp
  have r: "sync_reaches listing
      (ASSET_BUILDS_URL, loaded (Pickle [(7, R2)]), 0, load_events (Pickle [(7, R2)]))
      (ASSET_BUILDS_URL, [(7, R2)], 0, [])"
    using sync_reaches.here [of listing "(ASSET_BUILDS_URL, [(7, R2)], 0, [])"] by simp
  have s: "listing ASSET_BUILDS_URL = Reply first_page" by (simp add: listing_def)
  have c: "status_code first_page = 200" by (simp add: first_page_def)
  have j: "json first_page = Json_runs [R3, R2]" by (simp add: first_page_def)
  have m: "meets_completed [(7, R2)] [R3, R2] \<or> (\<exists>run \<in> set [R3, R2]. stored_completed [(7, R2)] (run_id run))"
    by (simp add: stored_completed_def dict_get_def R2_def)
  have p: "sync_pass listing ASSET_BUILDS_URL [(7, R2)] 0 [] =
      Leave None [(7, R2), (12, R3)] 1 [Print ''Fetching workflow runs ...'', Http_get ASSET_BUILDS_URL]"
    by (simp add: sync_pass_def listing_def first_page_def dict_get_def R2_def R3_def)
  show ?thesis
    using sync_stops_after_page_with_completed_run
      [where session = listing and url = ASSET_BUILDS_URL, OF g r s c j m] p
    by (auto simp: str_nat.simps)
qed

end
